theory Spec2Isabelle
  imports Complex_Main "HOL-Library.AList"
begin

section \<open>State manager (src/core/state/manager.py)\<close>

text \<open>The enumeration \<open>GameState\<close>, in declaration order.\<close>

datatype GameState =
  UNKNOWN | HOME_SCREEN | BATTLE | SHOP | INVENTORY | MAIL | LOADING | LOGIN | ERROR | POPUP

text \<open>Class \<open>StateTransition\<close>: the four attributes set by its constructor.
  Durations and time stamps are Python floats, idealised as reals.\<close>

record StateTransition =
  from_state :: GameState
  to_state :: GameState
  action_sequence :: "string list"
  expected_duration :: real

text \<open>Class \<open>StateManager\<close>. The dictionary \<open>transitions\<close> is an association list in
  insertion order (the order in which Python iterates a dict); assigning to a key that is
  present replaces the value in place, which is \<open>AList.update\<close>.\<close>

type_synonym transition_dict = "((GameState \<times> GameState) \<times> StateTransition) list"

record StateManager =
  current_state :: GameState
  previous_state :: "GameState option"
  state_history :: "(GameState \<times> real) list"
  transitions :: transition_dict
  stable_state_time :: real

definition register_transition ::
  "GameState \<Rightarrow> GameState \<Rightarrow> string list \<Rightarrow> real \<Rightarrow> StateManager \<Rightarrow> StateManager" where
  "register_transition from_s to_s acts dur m =
     (let transition = \<lparr>from_state = from_s, to_state = to_s,
                         action_sequence = acts, expected_duration = dur\<rparr>
      in m\<lparr>transitions := AList.update (from_s, to_s) transition (transitions m)\<rparr>)"

definition register_default_transitions :: "StateManager \<Rightarrow> StateManager" where
  "register_default_transitions m =
     register_transition UNKNOWN HOME_SCREEN
        [''click_template:common/return_home'', ''wait:1.0'',
         ''click_template:common/close_button'', ''wait:0.5'',
         ''click_template:common/confirm_button'', ''wait:0.5''] 3
     (register_transition ERROR HOME_SCREEN
        [''click_template:common/confirm_button'', ''wait:2.0''] 3
     (register_transition POPUP UNKNOWN
        [''click_template:common/close_button'', ''click_template:common/confirm_button'',
         ''click_template:common/empty_area''] 1
     (register_transition SHOP HOME_SCREEN [''click_template:common/return_home''] (3/2)
     (register_transition HOME_SCREEN SHOP [''click_template:home/shop_icon''] 2 m))))"

text \<open>\<open>StateManager.__init__\<close>.\<close>

definition init_manager :: StateManager where
  "init_manager = register_default_transitions
     \<lparr>current_state = UNKNOWN, previous_state = None, state_history = [],
      transitions = [], stable_state_time = 0\<rparr>"

text \<open>\<open>update_state\<close>; the argument \<open>now\<close> is the value \<open>time.time()\<close> returns in the call.
  The result pairs the returned flag with the manager after the call.\<close>

definition update_state :: "real \<Rightarrow> GameState \<Rightarrow> StateManager \<Rightarrow> bool \<times> StateManager" where
  "update_state now new_state m =
     (if new_state = current_state m then (False, m)
      else (True, m\<lparr>previous_state := Some (current_state m),
                     current_state := new_state,
                     state_history := state_history m @ [(new_state, now)],
                     stable_state_time := now\<rparr>))"

text \<open>\<open>find_path\<close>. The body of the \<open>for\<close> loop over \<open>self.transitions.items()\<close> either
  returns the path found (\<open>Inl\<close>) or finishes with the grown visited set and queue.\<close>

type_synonym bfs_queue = "(GameState \<times> StateTransition list) list"

fun scan_transitions ::
  "transition_dict \<Rightarrow> GameState \<Rightarrow> StateTransition list \<Rightarrow> GameState \<Rightarrow> GameState set \<Rightarrow>
   bfs_queue \<Rightarrow> StateTransition list + (GameState set \<times> bfs_queue)" where
  "scan_transitions [] state path target visited queue = Inr (visited, queue)"
| "scan_transitions (((from_s, to_s), transition) # rest) state path target visited queue =
     (if from_s = state \<and> to_s \<notin> visited then
        (let new_path = path @ [transition] in
         if to_s = target then Inl new_path
         else scan_transitions rest state path target (insert to_s visited)
                (queue @ [(to_s, new_path)]))
      else scan_transitions rest state path target visited queue)"

definition dict_targets :: "transition_dict \<Rightarrow> GameState set" where
  "dict_targets ts = (snd \<circ> fst) ` set ts"

lemma scan_transitions_grows:
  "scan_transitions rest state path target visited queue = Inr (visited', queue') \<Longrightarrow>
   visited \<subseteq> visited' \<and> visited' \<subseteq> visited \<union> dict_targets rest \<and>
   length queue' = length queue + card (visited' - visited) \<and> finite (visited' - visited)"
proof (induction rest state path target visited queue rule: scan_transitions.induct)
  case (1 state path target visited queue)
  then show ?case by simp
next
  case (2 from_s to_s transition rest state path target visited queue)
  show ?case
  proof (cases "from_s = state \<and> to_s \<notin> visited")
    case False
    with 2 show ?thesis by (auto simp: dict_targets_def)
  next
    case True
    with "2.prems" have neq: "to_s \<noteq> target"
      and run: "scan_transitions rest state path target (insert to_s visited)
                  (queue @ [(to_s, path @ [transition])]) = Inr (visited', queue')"
      by (auto simp: Let_def split: if_splits)
    from "2.IH"(1)[OF True refl neq run]
    have sub: "insert to_s visited \<subseteq> visited'"
      and sup: "visited' \<subseteq> insert to_s visited \<union> dict_targets rest"
      and len: "length queue' = length (queue @ [(to_s, path @ [transition])])
                  + card (visited' - insert to_s visited)"
      and fin: "finite (visited' - insert to_s visited)" by auto
    have split: "visited' - visited = insert to_s (visited' - insert to_s visited)"
      using sub True by auto
    have "card (visited' - visited) = Suc (card (visited' - insert to_s visited))"
      unfolding split using fin by simp
    moreover have "finite (visited' - visited)" unfolding split using fin by simp
    ultimately show ?thesis using sub sup len by (auto simp: dict_targets_def)
  qed
qed

text \<open>The \<open>while queue:\<close> loop; \<open>None\<close> is the fall-through \<open>return None\<close>.\<close>

function bfs_loop ::
  "transition_dict \<Rightarrow> GameState \<Rightarrow> GameState set \<Rightarrow> bfs_queue \<Rightarrow> StateTransition list option" where
  "bfs_loop ts target visited [] = None"
| "bfs_loop ts target visited ((state, path) # queue) =
     (case scan_transitions ts state path target visited queue of
        Inl new_path \<Rightarrow> Some new_path
      | Inr (visited', queue') \<Rightarrow> bfs_loop ts target visited' queue')"
  by pat_completeness auto

termination
proof (relation "measure (\<lambda>(ts, target, visited, queue).
                   2 * card (dict_targets ts - visited) + length queue)", goal_cases)
  case 1
  show ?case by simp
next
  case (2 ts target visited state path queue x2 visited' queue')
  then have run: "scan_transitions ts state path target visited queue = Inr (visited', queue')"
    by simp
  from scan_transitions_grows[OF run]
  have sub: "visited \<subseteq> visited'" and sup: "visited' \<subseteq> visited \<union> dict_targets ts"
    and len: "length queue' = length queue + card (visited' - visited)" by auto
  have fin: "finite (dict_targets ts)" by (simp add: dict_targets_def)
  have part: "dict_targets ts - visited = (dict_targets ts - visited') \<union> (visited' - visited)"
    using sub sup by auto
  have "card (dict_targets ts - visited)
          = card (dict_targets ts - visited') + card (visited' - visited)"
    by (subst part, rule card_Un_disjoint) (use fin sup in \<open>auto intro: finite_subset\<close>)
  with len show ?case by simp
qed

definition find_path :: "GameState \<Rightarrow> StateManager \<Rightarrow> StateTransition list option" where
  "find_path target_state m =
     (if current_state m = target_state then Some []
      else bfs_loop (transitions m) target_state {current_state m} [(current_state m, [])])"

definition can_transition_to :: "GameState \<Rightarrow> StateManager \<Rightarrow> bool" where
  "can_transition_to target_state m = (find_path target_state m \<noteq> None)"

text \<open>\<open>get_reachable_states\<close>: the loop over the keys adds the target of every key whose
  source is the current state.\<close>

fun add_direct :: "GameState \<Rightarrow> (GameState \<times> GameState) list \<Rightarrow> GameState set \<Rightarrow> GameState set" where
  "add_direct cur [] reachable = reachable"
| "add_direct cur ((from_s, to_s) # ks) reachable =
     add_direct cur ks (if from_s = cur then insert to_s reachable else reachable)"

definition get_reachable_states :: "StateManager \<Rightarrow> GameState set" where
  "get_reachable_states m = add_direct (current_state m) (map fst (transitions m)) {current_state m}"

text \<open>A call of one of the three public operations of the manager, and the manager it
  leaves behind. \<open>find_path\<close> only reads the manager.\<close>

datatype manager_call =
  UpdateState real GameState
| RegisterTransition GameState GameState "string list" real
| FindPath GameState

fun run_call :: "StateManager \<Rightarrow> manager_call \<Rightarrow> StateManager" where
  "run_call m (UpdateState now s) = snd (update_state now s m)"
| "run_call m (RegisterTransition f t acts dur) = register_transition f t acts dur m"
| "run_call m (FindPath t) = (case find_path t m of None \<Rightarrow> m | Some path \<Rightarrow> m)"

definition run_calls :: "manager_call list \<Rightarrow> StateManager \<Rightarrow> StateManager" where
  "run_calls cs m = foldl run_call m cs"

text \<open>Representation invariant of the dictionary: a key occurs once, and it is the pair
  of end points stored in its transition (as \<open>register_transition\<close> builds it).\<close>

definition dict_wf :: "transition_dict \<Rightarrow> bool" where
  "dict_wf ts \<longleftrightarrow>
     distinct (map fst ts) \<and>
     list_all (\<lambda>(k, tr). k = (from_state tr, to_state tr)) ts"

text \<open>Specification vocabulary for \<open>find_path\<close>: a list of registered transitions that
  chains from \<open>a\<close> to \<open>b\<close>, and a chain with the fewest hops. The remaining predicates are
  the loop invariants of the search.\<close>

fun valid_path :: "transition_dict \<Rightarrow> GameState \<Rightarrow> StateTransition list \<Rightarrow> GameState \<Rightarrow> bool" where
  "valid_path ts a [] b = (a = b)"
| "valid_path ts a (t # p) b =
     (from_state t = a \<and> ((from_state t, to_state t), t) \<in> set ts \<and> valid_path ts (to_state t) p b)"

definition shortest :: "transition_dict \<Rightarrow> GameState \<Rightarrow> StateTransition list \<Rightarrow> GameState \<Rightarrow> bool" where
  "shortest ts c p s \<longleftrightarrow> valid_path ts c p s \<and> (\<forall>q. valid_path ts c q s \<longrightarrow> length p \<le> length q)"

definition frontier_closed ::
  "transition_dict \<Rightarrow> GameState set \<Rightarrow> GameState set \<Rightarrow> GameState \<Rightarrow> transition_dict \<Rightarrow> bool" where
  "frontier_closed ts visited pending state rest \<longleftrightarrow>
     (\<forall>e\<in>set ts. fst (fst e) \<in> visited \<and> snd (fst e) \<notin> visited \<longrightarrow>
        fst (fst e) \<in> pending \<or> (fst (fst e) = state \<and> e \<in> set rest))"

definition scan_inv ::
  "transition_dict \<Rightarrow> GameState \<Rightarrow> GameState \<Rightarrow> GameState \<Rightarrow> StateTransition list \<Rightarrow>
   transition_dict \<Rightarrow> GameState set \<Rightarrow> bfs_queue \<Rightarrow> bool" where
  "scan_inv ts c target state path rest visited queue \<longleftrightarrow>
     set rest \<subseteq> set ts \<and> shortest ts c path state \<and> state \<in> visited \<and> c \<in> visited \<and>
     target \<notin> visited \<and>
     (\<forall>e\<in>set queue. shortest ts c (snd e) (fst e) \<and> fst e \<in> visited \<and>
        length path \<le> length (snd e) \<and> length (snd e) \<le> length path + 1) \<and>
     sorted (map (length \<circ> snd) queue) \<and>
     frontier_closed ts visited (fst ` set queue) state rest"

definition bfs_inv ::
  "transition_dict \<Rightarrow> GameState \<Rightarrow> GameState \<Rightarrow> GameState set \<Rightarrow> bfs_queue \<Rightarrow> bool" where
  "bfs_inv ts c target visited queue \<longleftrightarrow>
     c \<in> visited \<and> target \<notin> visited \<and>
     (\<forall>e\<in>set queue. shortest ts c (snd e) (fst e) \<and> fst e \<in> visited) \<and>
     sorted (map (length \<circ> snd) queue) \<and>
     (\<forall>e\<in>set queue. \<forall>e'\<in>set queue. length (snd e) \<le> length (snd e') + 1) \<and>
     (\<forall>e\<in>set ts. fst (fst e) \<in> visited \<and> snd (fst e) \<notin> visited \<longrightarrow> fst (fst e) \<in> fst ` set queue)"

text \<open>A sample manager whose only edges are \<open>HOME_SCREEN \<rightarrow> SHOP\<close> and \<open>SHOP \<rightarrow> BATTLE\<close>.\<close>

definition abc_manager :: "GameState \<Rightarrow> StateManager" where
  "abc_manager cur =
     \<lparr>current_state = cur, previous_state = None, state_history = [],
      transitions =
        [((HOME_SCREEN, SHOP), \<lparr>from_state = HOME_SCREEN, to_state = SHOP,
            action_sequence = [''click_template:home/shop_icon''], expected_duration = 2\<rparr>),
         ((SHOP, BATTLE), \<lparr>from_state = SHOP, to_state = BATTLE,
            action_sequence = [], expected_duration = 1\<rparr>)],
      stable_state_time = 0\<rparr>"

section \<open>Template matcher (src/core/vision/template.py)\<close>

datatype MatchMethod = EXACT | SQDIFF | CCORR

text \<open>Class \<open>TemplateMatch\<close>. Points are \<open>(x, y)\<close> pairs of Python integers; the confidence
  is a float, idealised as a real. The attribute \<open>method\<close> is called \<open>match_method\<close> here.\<close>

record TemplateMatch =
  top_left :: "int \<times> int"
  bottom_right :: "int \<times> int"
  confidence :: real
  template_name :: string
  match_method :: MatchMethod

definition center :: "TemplateMatch \<Rightarrow> int \<times> int" where
  "center m = ((fst (top_left m) + fst (bottom_right m)) div 2,
               (snd (top_left m) + snd (bottom_right m)) div 2)"

definition width :: "TemplateMatch \<Rightarrow> int" where
  "width m = fst (bottom_right m) - fst (top_left m)"

definition height :: "TemplateMatch \<Rightarrow> int" where
  "height m = snd (bottom_right m) - snd (top_left m)"

text \<open>A numpy image: \<open>shape0\<close> rows and \<open>shape1\<close> columns of pixel data. The pixel data is
  only ever passed to OpenCV.\<close>

record image =
  shape0 :: nat
  shape1 :: nat
  pixels :: "nat list"

record TemplateMatcher =
  templates :: "(string \<times> image) list"

text \<open>What a call can raise: an OpenCV error, or the attribute error Python raises when a
  list is used where a \<open>TemplateMatch\<close> is expected.\<close>

datatype error = CvError | AttributeError

text \<open>The score surface \<open>cv2.matchTemplate\<close> returns is a list of rows of floats (reals
  here). \<open>cv2.matchTemplate\<close> itself is a parameter of the model: it maps the frame, the
  template and the method to a surface, or to \<open>None\<close> when OpenCV raises.\<close>

type_synonym score_surface = "real list list"

type_synonym match_template = "image \<Rightarrow> image \<Rightarrow> MatchMethod \<Rightarrow> score_surface option"

text \<open>The cells of a surface in row-major order, each with its \<open>(x, y)\<close> location.\<close>

definition cells :: "score_surface \<Rightarrow> ((int \<times> int) \<times> real) list" where
  "cells result =
     concat (map (\<lambda>(y, row). map (\<lambda>(x, v). ((int x, int y), v)) (enumerate 0 row))
                 (enumerate 0 result))"

fun first_min :: "(int \<times> int) \<times> real \<Rightarrow> ((int \<times> int) \<times> real) list \<Rightarrow> (int \<times> int) \<times> real" where
  "first_min best [] = best"
| "first_min best (c # cs) = first_min (if snd c < snd best then c else best) cs"

fun first_max :: "(int \<times> int) \<times> real \<Rightarrow> ((int \<times> int) \<times> real) list \<Rightarrow> (int \<times> int) \<times> real" where
  "first_max best [] = best"
| "first_max best (c # cs) = first_max (if snd best < snd c then c else best) cs"

text \<open>\<open>cv2.minMaxLoc\<close>: the extreme values and the location of the first cell, in row-major
  order, that holds each; OpenCV raises on an empty array.\<close>

definition minMaxLoc :: "score_surface \<Rightarrow> (real \<times> real \<times> (int \<times> int) \<times> (int \<times> int)) option" where
  "minMaxLoc result =
     (case cells result of
        [] \<Rightarrow> None
      | c # cs \<Rightarrow> Some (snd (first_min c cs), snd (first_max c cs),
                        fst (first_min c cs), fst (first_max c cs)))"

text \<open>\<open>cv2.rectangle(result, pt1, pt2, color, -1)\<close>: every cell of the array inside the
  rectangle with the two corners (both included) takes the colour.\<close>

definition rectangle :: "score_surface \<Rightarrow> int \<times> int \<Rightarrow> int \<times> int \<Rightarrow> real \<Rightarrow> score_surface" where
  "rectangle result pt1 pt2 color =
     map (\<lambda>(y, row).
            map (\<lambda>(x, v). if fst pt1 \<le> int x \<and> int x \<le> fst pt2 \<and>
                              snd pt1 \<le> int y \<and> int y \<le> snd pt2 then color else v)
                (enumerate 0 row))
         (enumerate 0 result)"

definition result_shape0 :: "score_surface \<Rightarrow> int" where
  "result_shape0 result = int (length result)"

definition result_shape1 :: "score_surface \<Rightarrow> int" where
  "result_shape1 result = (case result of [] \<Rightarrow> 0 | row # rows \<Rightarrow> int (length row))"

text \<open>The loop \<open>while len(matches) < max_results\<close> of \<open>find_template\<close> (\<open>multiple=True\<close>).\<close>

function collect_matches ::
  "image \<Rightarrow> string \<Rightarrow> MatchMethod \<Rightarrow> real \<Rightarrow> int \<Rightarrow> bool \<Rightarrow> TemplateMatch list \<Rightarrow>
   score_surface \<Rightarrow> error + TemplateMatch list" where
  "collect_matches template name meth threshold max_results invert_score matches result =
     (if int (length matches) < max_results then
        (case minMaxLoc result of
           None \<Rightarrow> Inl CvError
         | Some (min_val, max_val, min_loc, max_loc) \<Rightarrow>
             (let score = (if invert_score then 1 - min_val else max_val);
                  loc = (if invert_score then min_loc else max_loc)
              in if score < threshold then Inr matches
                 else
                   (let h = int (shape0 template); w = int (shape1 template);
                        match = \<lparr>top_left = loc, bottom_right = (fst loc + w, snd loc + h),
                                  confidence = score, template_name = name, match_method = meth\<rparr>;
                        mask_size = 5
                    in collect_matches template name meth threshold max_results invert_score
                         (matches @ [match])
                         (rectangle result
                            (max 0 (fst loc - mask_size), max 0 (snd loc - mask_size))
                            (min (result_shape1 result) (fst loc + w + mask_size),
                             min (result_shape0 result) (snd loc + h + mask_size))
                            0))))
      else Inr matches)"
  by pat_completeness auto

termination
  by (relation "measure (\<lambda>(template, name, meth, threshold, max_results, invert_score, matches, result).
                  nat (max_results - int (length matches)))") auto

text \<open>The value \<open>find_template\<close> returns: a match or \<open>None\<close> (\<open>multiple=False\<close>), or a list.\<close>

datatype find_result = Single "TemplateMatch option" | Many "TemplateMatch list"

definition find_template ::
  "match_template \<Rightarrow> TemplateMatcher \<Rightarrow> image \<Rightarrow> string \<Rightarrow> MatchMethod \<Rightarrow> real \<Rightarrow> bool \<Rightarrow> int \<Rightarrow>
   error + find_result" where
  "find_template matchTemplate self img name meth threshold multiple max_results =
     (case map_of (templates self) name of
        None \<Rightarrow> Inr (if multiple then Many [] else Single None)
      | Some template \<Rightarrow>
          if shape0 template > shape0 img \<or> shape1 template > shape1 img
          then Inr (if multiple then Many [] else Single None)
          else
            (case matchTemplate img template meth of
               None \<Rightarrow> Inl CvError
             | Some result \<Rightarrow>
                 (let invert_score = (meth = SQDIFF) in
                  if multiple then
                    (case collect_matches template name meth threshold max_results
                            invert_score [] result of
                       Inl e \<Rightarrow> Inl e
                     | Inr matches \<Rightarrow> Inr (Many matches))
                  else
                    (case minMaxLoc result of
                       None \<Rightarrow> Inl CvError
                     | Some (min_val, max_val, min_loc, max_loc) \<Rightarrow>
                         (let score = (if invert_score then 1 - min_val else max_val);
                              loc = (if invert_score then min_loc else max_loc)
                          in if score < threshold then Inr (Single None)
                             else
                               (let h = int (shape0 template); w = int (shape1 template)
                                in Inr (Single (Some
                                     \<lparr>top_left = loc, bottom_right = (fst loc + w, snd loc + h),
                                      confidence = score, template_name = name,
                                      match_method = meth\<rparr>))))))))"

text \<open>Python truth value of what \<open>find_template\<close> returned (\<open>if match:\<close>).\<close>

fun truthy :: "find_result \<Rightarrow> bool" where
  "truthy (Single None) = False"
| "truthy (Single (Some m)) = True"
| "truthy (Many ms) = (ms \<noteq> [])"

text \<open>Specification vocabulary for the matcher: the confidence reported for a raw score
  (difference-style scores are inverted), and two bounding rectangles sharing a pixel.\<close>

definition oriented :: "MatchMethod \<Rightarrow> real \<Rightarrow> real" where
  "oriented meth raw = (if meth = SQDIFF then 1 - raw else raw)"

definition overlaps :: "TemplateMatch \<Rightarrow> TemplateMatch \<Rightarrow> bool" where
  "overlaps a b \<longleftrightarrow>
     fst (top_left a) < fst (bottom_right b) \<and> fst (top_left b) < fst (bottom_right a) \<and>
     snd (top_left a) < snd (bottom_right b) \<and> snd (top_left b) < snd (bottom_right a)"

text \<open>Sample data: one loaded template of 2 rows and 3 columns, a stand-in for OpenCV that
  reports a perfect match of a frame as large as the template (a surface of one cell), and
  one that reports a surface of 2 rows and 2 columns.\<close>

definition icon :: image where
  "icon = \<lparr>shape0 = 2, shape1 = 3, pixels = [1, 2, 3, 4, 5, 6]\<rparr>"

definition icon_matcher :: TemplateMatcher where
  "icon_matcher = \<lparr>templates = [(''home/shop_icon'', icon)]\<rparr>"

definition perfect_match :: match_template where
  "perfect_match img template meth = Some [[if meth = SQDIFF then 0 else 1]]"

definition sample_frame :: image where
  "sample_frame = \<lparr>shape0 = 3, shape1 = 4, pixels = []\<rparr>"

definition sample_surface :: match_template where
  "sample_surface img template meth = Some [[1/10, 9/10], [3/10, 1/5]]"

section \<open>State detector (src/core/state/detection.py)\<close>

text \<open>One entry of \<open>state_definitions\<close>: the dictionary with the three keys
  \<open>required_templates\<close>, \<open>confidence_threshold\<close> and \<open>match_all\<close>.\<close>

record state_definition =
  required_templates :: "string list"
  confidence_threshold :: real
  match_all :: bool

text \<open>Class \<open>StateDetector\<close>; \<open>state_definitions\<close> is a dictionary, kept in insertion order.\<close>

record StateDetector =
  template_matcher :: TemplateMatcher
  state_definitions :: "(GameState \<times> state_definition) list"

definition init_detector :: "TemplateMatcher \<Rightarrow> StateDetector" where
  "init_detector tm =
     \<lparr>template_matcher = tm,
      state_definitions =
        [(HOME_SCREEN, \<lparr>required_templates = [''home/menu_button'', ''home/shop_button''],
                         confidence_threshold = 4/5, match_all = True\<rparr>),
         (BATTLE, \<lparr>required_templates = [''battle/battle_ui'', ''battle/back_button''],
                    confidence_threshold = 7/10, match_all = True\<rparr>),
         (SHOP, \<lparr>required_templates = [''shop/shop_title'', ''shop/purchase_button''],
                  confidence_threshold = 3/4, match_all = False\<rparr>),
         (LOADING, \<lparr>required_templates = [''common/loading_indicator''],
                     confidence_threshold = 3/5, match_all = True\<rparr>),
         (ERROR, \<lparr>required_templates = [''common/error_icon'', ''common/error_message''],
                   confidence_threshold = 7/10, match_all = False\<rparr>)]\<rparr>"

definition register_state_definition ::
  "GameState \<Rightarrow> string list \<Rightarrow> real \<Rightarrow> bool \<Rightarrow> StateDetector \<Rightarrow> StateDetector" where
  "register_state_definition state required threshold all self =
     self\<lparr>state_definitions :=
       AList.update state
         \<lparr>required_templates = required, confidence_threshold = threshold, match_all = all\<rparr>
         (state_definitions self)\<rparr>"

text \<open>The inner loop of \<open>detect_state\<close> over the required templates of one state, with its
  two accumulators. Reading \<open>match.confidence\<close> off a list would raise.\<close>

fun count_matches ::
  "match_template \<Rightarrow> TemplateMatcher \<Rightarrow> image \<Rightarrow> real \<Rightarrow> string list \<Rightarrow> nat \<Rightarrow> real \<Rightarrow>
   error + (nat \<times> real)" where
  "count_matches mt tm screen threshold [] matched_templates total_confidence =
     Inr (matched_templates, total_confidence)"
| "count_matches mt tm screen threshold (name # rest) matched_templates total_confidence =
     (case find_template mt tm screen name EXACT threshold False 5 of
        Inl e \<Rightarrow> Inl e
      | Inr found \<Rightarrow>
          if truthy found then
            (case found of
               Single (Some m) \<Rightarrow>
                 count_matches mt tm screen threshold rest (matched_templates + 1)
                   (total_confidence + confidence m)
             | Single None \<Rightarrow> Inl AttributeError
             | Many ms \<Rightarrow> Inl AttributeError)
          else count_matches mt tm screen threshold rest matched_templates total_confidence)"

text \<open>The outer loop over \<open>state_definitions.items()\<close>, filling the dictionary
  \<open>state_confidence\<close>.\<close>

fun score_states ::
  "match_template \<Rightarrow> TemplateMatcher \<Rightarrow> image \<Rightarrow> (GameState \<times> state_definition) list \<Rightarrow>
   (GameState \<times> real) list \<Rightarrow> error + (GameState \<times> real) list" where
  "score_states mt tm screen [] state_confidence = Inr state_confidence"
| "score_states mt tm screen ((state, defn) # rest) state_confidence =
     (case count_matches mt tm screen (confidence_threshold defn) (required_templates defn) 0 0 of
        Inl e \<Rightarrow> Inl e
      | Inr (matched_templates, total_confidence) \<Rightarrow>
          if matched_templates > 0 then
            (let avg_confidence = total_confidence / real matched_templates in
             if (match_all defn \<and> matched_templates = length (required_templates defn)) \<or>
                (\<not> match_all defn \<and> matched_templates > 0)
             then score_states mt tm screen rest
                    (AList.update state avg_confidence state_confidence)
             else score_states mt tm screen rest state_confidence)
          else score_states mt tm screen rest state_confidence)"

text \<open>Python's \<open>max(items, key=lambda x: x[1])\<close>: the first item with the largest key.\<close>

fun max_item :: "GameState \<times> real \<Rightarrow> (GameState \<times> real) list \<Rightarrow> GameState \<times> real" where
  "max_item best [] = best"
| "max_item best (x # xs) = max_item (if snd best < snd x then x else best) xs"

definition detect_state :: "match_template \<Rightarrow> StateDetector \<Rightarrow> image \<Rightarrow> error + GameState" where
  "detect_state mt self screen =
     (case score_states mt (template_matcher self) screen (state_definitions self) [] of
        Inl e \<Rightarrow> Inl e
      | Inr [] \<Rightarrow> Inr UNKNOWN
      | Inr (item # items) \<Rightarrow> Inr (fst (max_item item items)))"

definition verify_state ::
  "match_template \<Rightarrow> StateDetector \<Rightarrow> GameState \<Rightarrow> image \<Rightarrow> error + bool" where
  "verify_state mt self expected_state screen =
     (case detect_state mt self screen of
        Inl e \<Rightarrow> Inl e
      | Inr detected_state \<Rightarrow> Inr (detected_state = expected_state))"

section \<open>Navigation executor (src/main.py)\<close>

text \<open>What the executor does to the outside world, in order: clicks through the input
  controller, calls of \<open>time.sleep\<close>, and the warnings and errors it logs.\<close>

datatype event =
  ClickTemplate TemplateMatch
| Sleep real
| TemplateNotFoundWarning string
| UnknownActionWarning string
| ActionError string
| NoPathError GameState GameState
| UnexpectedStateWarning GameState GameState

text \<open>Class \<open>NikkeAutomation\<close> with the world it runs in. The matcher of the automation and
  the matcher of its detector are one object, stored once, in the detector. The screen is
  whatever the \<open>n\<close>-th capture returns; the clock is read by \<open>time.time()\<close> and advanced by
  \<open>time.sleep\<close>.\<close>

record NikkeAutomation =
  state_manager :: StateManager
  state_detector :: StateDetector
  screens :: "nat \<Rightarrow> image"
  captures :: nat
  clock :: real
  events :: "event list"

definition capture :: "NikkeAutomation \<Rightarrow> image \<times> NikkeAutomation" where
  "capture a = (screens a (captures a), a\<lparr>captures := captures a + 1\<rparr>)"

definition emit :: "event \<Rightarrow> NikkeAutomation \<Rightarrow> NikkeAutomation" where
  "emit e a = a\<lparr>events := events a @ [e]\<rparr>"

definition sleep :: "real \<Rightarrow> NikkeAutomation \<Rightarrow> NikkeAutomation" where
  "sleep seconds a = emit (Sleep seconds) (a\<lparr>clock := clock a + seconds\<rparr>)"

text \<open>\<open>NikkeAutomation.update_state\<close>: capture, detect, update the manager; an exception of
  the detector propagates.\<close>

definition automation_update_state ::
  "match_template \<Rightarrow> NikkeAutomation \<Rightarrow> error + (GameState \<times> NikkeAutomation)" where
  "automation_update_state mt a =
     (let (screen, a1) = capture a in
      case detect_state mt (state_detector a1) screen of
        Inl e \<Rightarrow> Inl e
      | Inr detected_state \<Rightarrow>
          Inr (detected_state,
               a1\<lparr>state_manager := snd (update_state (clock a1) detected_state (state_manager a1))\<rparr>))"

text \<open>\<open>_execute_action\<close>; every exception inside is caught and logged.\<close>

definition execute_action ::
  "match_template \<Rightarrow> string \<Rightarrow> NikkeAutomation \<Rightarrow> bool \<times> NikkeAutomation" where
  "execute_action mt action_name a =
     (let (screen, a1) = capture a in
      if take 6 action_name = ''click_'' then
        (let template_name = drop 6 action_name in
         case find_template mt (template_matcher (state_detector a1)) screen template_name
                EXACT (7/10) False 5 of
           Inl e \<Rightarrow> (False, emit (ActionError action_name) a1)
         | Inr found \<Rightarrow>
             if truthy found then
               (case found of
                  Single (Some m) \<Rightarrow> (True, emit (ClickTemplate m) a1)
                | Single None \<Rightarrow> (False, emit (ActionError action_name) a1)
                | Many ms \<Rightarrow> (False, emit (ActionError action_name) a1))
             else (False, emit (TemplateNotFoundWarning action_name) a1))
      else (False, emit (UnknownActionWarning action_name) a1))"

fun execute_actions :: "match_template \<Rightarrow> string list \<Rightarrow> NikkeAutomation \<Rightarrow> NikkeAutomation" where
  "execute_actions mt [] a = a"
| "execute_actions mt (action_name # rest) a =
     execute_actions mt rest (snd (execute_action mt action_name a))"

text \<open>The loop \<open>for transition in path\<close> of \<open>navigate_to\<close>.\<close>

fun follow_path ::
  "match_template \<Rightarrow> StateTransition list \<Rightarrow> NikkeAutomation \<Rightarrow> error + (bool \<times> NikkeAutomation)" where
  "follow_path mt [] a = Inr (True, a)"
| "follow_path mt (transition # rest) a =
     (case automation_update_state mt
             (sleep (expected_duration transition)
                (execute_actions mt (action_sequence transition) a)) of
        Inl e \<Rightarrow> Inl e
      | Inr (new_state, a') \<Rightarrow>
          if new_state \<noteq> to_state transition
          then Inr (False, emit (UnexpectedStateWarning (to_state transition) new_state) a')
          else follow_path mt rest a')"

definition navigate_to ::
  "match_template \<Rightarrow> GameState \<Rightarrow> NikkeAutomation \<Rightarrow> error + (bool \<times> NikkeAutomation)" where
  "navigate_to mt target_state a =
     (case automation_update_state mt a of
        Inl e \<Rightarrow> Inl e
      | Inr (cur, a') \<Rightarrow>
          if cur = target_state then Inr (True, a')
          else
            (case find_path target_state (state_manager a') of
               None \<Rightarrow> Inr (False, emit (NoPathError cur target_state) a')
             | Some [] \<Rightarrow> Inr (False, emit (NoPathError cur target_state) a')
             | Some (transition # rest) \<Rightarrow> follow_path mt (transition # rest) a'))"

text \<open>Sample data: a detector that knows the home screen by one template, and an automation
  whose screen never changes, on the sample graph \<open>HOME_SCREEN \<rightarrow> SHOP \<rightarrow> BATTLE\<close>.\<close>

definition home_detector :: StateDetector where
  "home_detector =
     \<lparr>template_matcher =
        \<lparr>templates = [(''home/menu_button'', icon), (''home/shop_icon'', icon)]\<rparr>,
      state_definitions =
        [(HOME_SCREEN, \<lparr>required_templates = [''home/menu_button''],
                         confidence_threshold = 4/5, match_all = True\<rparr>)]\<rparr>"

definition stuck_automation :: NikkeAutomation where
  "stuck_automation =
     \<lparr>state_manager = abc_manager UNKNOWN, state_detector = home_detector,
      screens = (\<lambda>n. sample_frame), captures = 0, clock = 0, events = []\<rparr>"

section \<open>Session bookkeeping\<close>

text \<open>C7. \<open>update_state\<close> with the current state returns false and changes nothing (current
  state, previous state, history, dwell-start time stamp, and the transitions); with a
  different state it returns true, moves the old current state into \<open>previous_state\<close>,
  appends \<open>(new_state, now)\<close> to the history and sets the dwell-start time stamp to \<open>now\<close>.\<close>

theorem update_state_effect:
  "(new_state = current_state m \<longrightarrow>
      fst (update_state now new_state m) = False \<and>
      snd (update_state now new_state m) = m) \<and>
   (new_state \<noteq> current_state m \<longrightarrow>
      fst (update_state now new_state m) = True \<and>
      current_state (snd (update_state now new_state m)) = new_state \<and>
      previous_state (snd (update_state now new_state m)) = Some (current_state m) \<and>
      state_history (snd (update_state now new_state m)) = state_history m @ [(new_state, now)] \<and>
      stable_state_time (snd (update_state now new_state m)) = now \<and>
      transitions (snd (update_state now new_state m)) = transitions m)"
  by (simp add: update_state_def)

theorem update_state_effect_witness:
  "fst (update_state 7 UNKNOWN init_manager) = False \<and>
   snd (update_state 7 UNKNOWN init_manager) = init_manager \<and>
   fst (update_state 7 SHOP init_manager) = True \<and>
   current_state (snd (update_state 7 SHOP init_manager)) = SHOP \<and>
   previous_state (snd (update_state 7 SHOP init_manager)) = Some UNKNOWN \<and>
   state_history (snd (update_state 7 SHOP init_manager)) = [(SHOP, 7)] \<and>
   stable_state_time (snd (update_state 7 SHOP init_manager)) = 7"
proof -
  have cur: "current_state init_manager = UNKNOWN"
    and hist: "state_history init_manager = []"
    by (simp_all add: init_manager_def register_default_transitions_def register_transition_def)
  from update_state_effect[of UNKNOWN init_manager 7] update_state_effect[of SHOP init_manager 7]
  show ?thesis by (simp add: cur hist)
qed

text \<open>The bookkeeping invariant behind C10: the last history entry, when there is one,
  records the current state.\<close>

definition session_inv :: "StateManager \<Rightarrow> bool" where
  "session_inv m \<longleftrightarrow>
     previous_state m \<noteq> Some (current_state m) \<and>
     distinct_adj (map fst (state_history m)) \<and>
     (state_history m = [] \<or> fst (last (state_history m)) = current_state m)"

lemma session_inv_init: "session_inv init_manager"
  by (simp add: session_inv_def init_manager_def register_default_transitions_def
      register_transition_def)

lemma session_inv_update: "session_inv m \<Longrightarrow> session_inv (snd (update_state now s m))"
  by (auto simp: session_inv_def update_state_def distinct_adj_append_iff last_map)

lemma session_inv_register: "session_inv m \<Longrightarrow> session_inv (register_transition f t a d m)"
  by (simp add: session_inv_def register_transition_def)

lemma session_inv_call: "session_inv m \<Longrightarrow> session_inv (run_call m c)"
  by (cases c) (simp_all add: session_inv_update session_inv_register split: option.splits)

lemma session_inv_foldl: "session_inv m \<Longrightarrow> session_inv (foldl run_call m cs)"
  by (induction cs arbitrary: m) (simp_all add: session_inv_call)

text \<open>C10. After any sequence of \<open>update_state\<close>, \<open>register_transition\<close> and \<open>find_path\<close> calls
  on a freshly constructed manager, the previous state is unset or differs from the current
  state, and no two consecutive history entries record the same state.\<close>

theorem session_invariant:
  "previous_state (run_calls cs init_manager) \<noteq> Some (current_state (run_calls cs init_manager)) \<and>
   distinct_adj (map fst (state_history (run_calls cs init_manager)))"
  using session_inv_foldl[OF session_inv_init, of cs]
  by (simp add: session_inv_def run_calls_def)

lemma list_all_update:
  "list_all P ts \<Longrightarrow> P (k, v) \<Longrightarrow> list_all P (AList.update k v ts)"
  by (induction ts) auto

lemma dict_wf_update:
  "dict_wf ts \<Longrightarrow>
   dict_wf (AList.update (f, t) \<lparr>from_state = f, to_state = t, action_sequence = a,
                                 expected_duration = d\<rparr> ts)"
  unfolding dict_wf_def
  by (simp add: distinct_update list_all_update)

lemma dict_wf_register: "dict_wf (transitions m) \<Longrightarrow> dict_wf (transitions (register_transition f t a d m))"
  by (simp add: register_transition_def dict_wf_update)

lemma dict_wf_init: "dict_wf (transitions init_manager)"
proof -
  have "dict_wf (transitions \<lparr>current_state = UNKNOWN, previous_state = None, state_history = [],
      transitions = [], stable_state_time = 0\<rparr>)" by (simp add: dict_wf_def)
  then show ?thesis
    unfolding init_manager_def register_default_transitions_def
    by (intro dict_wf_register)
qed

lemma dict_wf_call: "dict_wf (transitions m) \<Longrightarrow> dict_wf (transitions (run_call m c))"
  by (cases c) (simp_all add: dict_wf_register update_state_def split: option.splits)

lemma dict_wf_foldl: "dict_wf (transitions m) \<Longrightarrow> dict_wf (transitions (foldl run_call m cs))"
  by (induction cs arbitrary: m) (simp_all add: dict_wf_call)

lemma filter_update_key:
  "distinct (map fst ts) \<Longrightarrow> k \<in> fst ` set ts \<Longrightarrow>
   filter (\<lambda>e. fst e = k) (AList.update k v ts) = [(k, v)]"
proof (induction ts)
  case Nil then show ?case by simp
next
  case (Cons e ts)
  show ?case
  proof (cases "fst e = k")
    case True
    with Cons.prems have "\<forall>x\<in>set ts. fst x \<noteq> k" by (auto simp: image_iff)
    then have "filter (\<lambda>e. fst e = k) ts = []" by (simp add: filter_empty_conv)
    with True show ?thesis by (cases e) simp
  next
    case False
    with Cons show ?thesis by (cases e) auto
  qed
qed

text \<open>C9. Registering a transition twice for the same ordered pair leaves exactly one entry
  for the pair, holding the second action list and duration: the lookup returns it, the
  manager is the one a single registration of the second would give, and keys stay unique
  (they are unique after any sequence of calls on a fresh manager).\<close>

theorem register_transition_replaces:
  "distinct (map fst (transitions (run_calls cs init_manager))) \<and>
   (distinct (map fst (transitions m)) \<longrightarrow>
     map_of (transitions (register_transition f t a2 d2 (register_transition f t a1 d1 m))) (f, t)
       = Some \<lparr>from_state = f, to_state = t, action_sequence = a2, expected_duration = d2\<rparr> \<and>
     filter (\<lambda>e. fst e = (f, t))
         (transitions (register_transition f t a2 d2 (register_transition f t a1 d1 m)))
       = [((f, t), \<lparr>from_state = f, to_state = t, action_sequence = a2, expected_duration = d2\<rparr>)] \<and>
     distinct (map fst (transitions (register_transition f t a2 d2 (register_transition f t a1 d1 m)))) \<and>
     register_transition f t a2 d2 (register_transition f t a1 d1 m) = register_transition f t a2 d2 m)"
proof (rule conjI, goal_cases)
  case 1
  show ?case
    using dict_wf_foldl[OF dict_wf_init, of cs] by (simp add: run_calls_def dict_wf_def)
next
  case 2
  show ?case
  proof
  assume d: "distinct (map fst (transitions m))"
  let ?v1 = "\<lparr>from_state = f, to_state = t, action_sequence = a1, expected_duration = d1\<rparr>"
  let ?v2 = "\<lparr>from_state = f, to_state = t, action_sequence = a2, expected_duration = d2\<rparr>"
  let ?ts1 = "AList.update (f, t) ?v1 (transitions m)"
  have d1: "distinct (map fst ?ts1)" using d by (simp add: distinct_update)
  have k1: "(f, t) \<in> fst ` set ?ts1" by (simp add: dom_update update_conv' flip: dom_map_of_conv_image_fst)
  have "filter (\<lambda>e. fst e = (f, t)) (AList.update (f, t) ?v2 ?ts1) = [((f, t), ?v2)]"
    by (rule filter_update_key[OF d1 k1])
  then show "map_of (transitions (register_transition f t a2 d2 (register_transition f t a1 d1 m))) (f, t)
       = Some ?v2 \<and>
     filter (\<lambda>e. fst e = (f, t))
         (transitions (register_transition f t a2 d2 (register_transition f t a1 d1 m)))
       = [((f, t), ?v2)] \<and>
     distinct (map fst (transitions (register_transition f t a2 d2 (register_transition f t a1 d1 m)))) \<and>
     register_transition f t a2 d2 (register_transition f t a1 d1 m) = register_transition f t a2 d2 m"
    using d d1 by (simp add: register_transition_def update_conv' distinct_update update_last)
  qed
qed

theorem register_transition_replaces_witness:
  "map_of (transitions (register_transition HOME_SCREEN SHOP [''b''] 1 (register_transition HOME_SCREEN SHOP [''a''] 2 init_manager))) (HOME_SCREEN, SHOP)
       = Some \<lparr>from_state = HOME_SCREEN, to_state = SHOP, action_sequence = [''b''], expected_duration = 1\<rparr> \<and>
   map (fst) (transitions (register_transition HOME_SCREEN SHOP [''b''] 1 (register_transition HOME_SCREEN SHOP [''a''] 2 init_manager)))
       = [(HOME_SCREEN, SHOP), (SHOP, HOME_SCREEN), (POPUP, UNKNOWN), (ERROR, HOME_SCREEN), (UNKNOWN, HOME_SCREEN)]"
proof -
  have d: "distinct (map fst (transitions init_manager))"
    by (simp add: init_manager_def register_default_transitions_def register_transition_def)
  from register_transition_replaces[of "[]" init_manager HOME_SCREEN SHOP "[''b'']" 1 "[''a'']" 2] d
  show ?thesis
    by (simp add: init_manager_def register_default_transitions_def register_transition_def)
qed

section \<open>Breadth-first search\<close>

lemma dict_wf_entry:
  "dict_wf ts \<Longrightarrow> ((a, b), t) \<in> set ts \<Longrightarrow> from_state t = a \<and> to_state t = b"
  by (auto simp: dict_wf_def list_all_iff)

lemma valid_path_snoc:
  "valid_path ts a (p @ [t]) b \<longleftrightarrow>
     valid_path ts a p (from_state t) \<and> ((from_state t, to_state t), t) \<in> set ts \<and> to_state t = b"
  by (induction p arbitrary: a) auto

lemma valid_path_crossing:
  "valid_path ts a q b \<Longrightarrow> a \<in> V \<Longrightarrow> b \<notin> V \<Longrightarrow>
   \<exists>q1 t q2. q = q1 @ t # q2 \<and> valid_path ts a q1 (from_state t) \<and>
      from_state t \<in> V \<and> to_state t \<notin> V \<and> ((from_state t, to_state t), t) \<in> set ts"
proof (induction q arbitrary: a)
  case Nil
  then show ?case by simp
next
  case (Cons t q)
  then have ft: "from_state t = a" and mem: "((from_state t, to_state t), t) \<in> set ts"
    and rest: "valid_path ts (to_state t) q b" by auto
  show ?case
  proof (cases "to_state t \<in> V")
    case False
    have "t # q = [] @ t # q \<and> valid_path ts a [] (from_state t) \<and>
      from_state t \<in> V \<and> to_state t \<notin> V \<and> ((from_state t, to_state t), t) \<in> set ts"
      using False ft mem Cons.prems by simp
    then show ?thesis by blast
  next
    case True
    from Cons.IH[OF rest True Cons.prems(3)]
    obtain q1 u q2 where q: "q = q1 @ u # q2" and v: "valid_path ts (to_state t) q1 (from_state u)"
      and u: "from_state u \<in> V" "to_state u \<notin> V" "((from_state u, to_state u), u) \<in> set ts"
      by blast
    have "t # q = (t # q1) @ u # q2 \<and> valid_path ts a (t # q1) (from_state u)"
      using q v ft mem by simp
    with u show ?thesis by blast
  qed
qed

text \<open>A path leaving the visited set is at least one hop longer than the entry being
  scanned, when every visited state with an unvisited successor is that entry or still queued
  behind it.\<close>

lemma leaving_path_length:
  assumes inv: "scan_inv ts c target state path rest visited queue"
    and q: "valid_path ts c q b" and b: "b \<notin> visited"
  shows "length path + 1 \<le> length q"
proof -
  from inv have cv: "c \<in> visited"
    and sp: "shortest ts c path state"
    and ent: "\<forall>e\<in>set queue. shortest ts c (snd e) (fst e) \<and> fst e \<in> visited \<and>
        length path \<le> length (snd e) \<and> length (snd e) \<le> length path + 1"
    and fc: "frontier_closed ts visited (fst ` set queue) state rest"
    by (simp_all add: scan_inv_def)
  from valid_path_crossing[OF q cv b]
  obtain q1 t q2 where qq: "q = q1 @ t # q2" and v1: "valid_path ts c q1 (from_state t)"
    and u: "from_state t \<in> visited" "to_state t \<notin> visited"
    and mem: "((from_state t, to_state t), t) \<in> set ts" by blast
  from fc mem u have "from_state t \<in> fst ` set queue \<or> from_state t = state"
    unfolding frontier_closed_def by force
  then have "length path \<le> length q1"
  proof
    assume "from_state t \<in> fst ` set queue"
    then obtain e where e: "e \<in> set queue" "fst e = from_state t" by auto
    with ent have "shortest ts c (snd e) (from_state t)" "length path \<le> length (snd e)"
      by auto
    with v1 show ?thesis unfolding shortest_def by force
  next
    assume "from_state t = state"
    with sp v1 show ?thesis unfolding shortest_def by auto
  qed
  with qq show ?thesis by simp
qed

lemma scan_transitions_correct:
  assumes wf: "dict_wf ts"
  shows "scan_inv ts c target state path rest visited queue \<Longrightarrow>
     (case scan_transitions rest state path target visited queue of
        Inl p \<Rightarrow> shortest ts c p target
      | Inr (visited', queue') \<Rightarrow> scan_inv ts c target state path [] visited' queue')"
proof (induction rest state path target visited queue rule: scan_transitions.induct)
  case (1 state path target visited queue)
  then show ?case by simp
next
  case (2 from_s to_s transition rest state path target visited queue)
  let ?e = "((from_s, to_s), transition)"
  note inv = "2.prems"
  from inv have mem: "?e \<in> set ts" and sub: "set rest \<subseteq> set ts" by (auto simp: scan_inv_def)
  from dict_wf_entry[OF wf mem] have ft: "from_state transition = from_s" "to_state transition = to_s"
    by auto
  show ?case
  proof (cases "from_s = state \<and> to_s \<notin> visited")
    case False
    have "scan_inv ts c target state path rest visited queue"
      using inv False unfolding scan_inv_def frontier_closed_def by auto
    from "2.IH"(2)[OF False this]
    have "case scan_transitions rest state path target visited queue of
        Inl p \<Rightarrow> shortest ts c p target
      | Inr (visited', queue') \<Rightarrow> scan_inv ts c target state path [] visited' queue'" .
    moreover have "scan_transitions (?e # rest) state path target visited queue
        = scan_transitions rest state path target visited queue"
      using False by auto
    ultimately show ?thesis by (simp only:)
  next
    case True
    let ?np = "path @ [transition]"
    have vp: "valid_path ts c ?np to_s"
      using inv mem ft True by (simp add: valid_path_snoc scan_inv_def shortest_def)
    have sh: "shortest ts c ?np to_s"
      unfolding shortest_def
    proof (intro conjI allI impI)
      show "valid_path ts c ?np to_s" by (rule vp)
    next
      fix q assume "valid_path ts c q to_s"
      from leaving_path_length[OF inv this] True show "length ?np \<le> length q" by simp
    qed
    show ?thesis
    proof (cases "to_s = target")
      case tgt: True
      have "scan_transitions (?e # rest) state path target visited queue = Inl ?np"
        using True tgt by (simp add: Let_def)
      with sh tgt show ?thesis by (simp only: sum.case)
    next
      case False
      have inv': "scan_inv ts c target state path rest (insert to_s visited) (queue @ [(to_s, ?np)])"
        unfolding scan_inv_def
      proof (intro conjI)
        show "set rest \<subseteq> set ts" by (rule sub)
        show "shortest ts c path state" "state \<in> insert to_s visited" "c \<in> insert to_s visited"
          using inv by (auto simp: scan_inv_def)
        show "target \<notin> insert to_s visited" using inv False by (auto simp: scan_inv_def)
        have old: "\<forall>e\<in>set queue. shortest ts c (snd e) (fst e) \<and>
           fst e \<in> visited \<and> length path \<le> length (snd e) \<and>
           length (snd e) \<le> length path + 1" using inv by (simp add: scan_inv_def)
        then show "\<forall>e\<in>set (queue @ [(to_s, ?np)]). shortest ts c (snd e) (fst e) \<and>
           fst e \<in> insert to_s visited \<and> length path \<le> length (snd e) \<and>
           length (snd e) \<le> length path + 1"
          using sh by auto
        have "sorted (map (length \<circ> snd) queue)" using inv by (simp add: scan_inv_def)
        with old show "sorted (map (length \<circ> snd) (queue @ [(to_s, ?np)]))"
          by (auto simp: sorted_append)
        have fc: "frontier_closed ts visited (fst ` set queue) state (?e # rest)"
          using inv by (simp add: scan_inv_def)
        show "frontier_closed ts (insert to_s visited) (fst ` set (queue @ [(to_s, ?np)])) state rest"
          unfolding frontier_closed_def
        proof (intro ballI impI)
          fix e assume e: "e \<in> set ts"
            and c: "fst (fst e) \<in> insert to_s visited \<and> snd (fst e) \<notin> insert to_s visited"
          show "fst (fst e) \<in> fst ` set (queue @ [(to_s, ?np)]) \<or> fst (fst e) = state \<and> e \<in> set rest"
          proof (cases "fst (fst e) = to_s")
            case True
            then show ?thesis by simp
          next
            case False
            with c have "fst (fst e) \<in> visited \<and> snd (fst e) \<notin> visited" by simp
            with fc e have "fst (fst e) \<in> fst ` set queue \<or> (fst (fst e) = state \<and> e \<in> set (?e # rest))"
              unfolding frontier_closed_def by blast
            moreover have "e \<noteq> ?e" using c by auto
            ultimately show ?thesis by auto
          qed
        qed
      qed
      from "2.IH"(1)[OF True refl False inv']
      have "case scan_transitions rest state path target (insert to_s visited) (queue @ [(to_s, ?np)]) of
          Inl p \<Rightarrow> shortest ts c p target
        | Inr (visited', queue') \<Rightarrow> scan_inv ts c target state path [] visited' queue'" .
      moreover have "scan_transitions (?e # rest) state path target visited queue
          = scan_transitions rest state path target (insert to_s visited) (queue @ [(to_s, ?np)])"
        using True False by (simp add: Let_def)
      ultimately show ?thesis by (simp only:)
    qed
  qed
qed

lemma scan_inv_start:
  assumes inv: "bfs_inv ts c target visited ((state, path) # queue)"
  shows "scan_inv ts c target state path ts visited queue"
proof -
  from inv have hd: "shortest ts c path state" "state \<in> visited" "c \<in> visited" "target \<notin> visited"
    and ent: "\<forall>e\<in>set queue. shortest ts c (snd e) (fst e) \<and> fst e \<in> visited"
    and srt: "sorted (map (length \<circ> snd) ((state, path) # queue))"
    and pw: "\<forall>e\<in>set queue. length (snd e) \<le> length path + 1"
    and cl: "\<forall>e\<in>set ts. fst (fst e) \<in> visited \<and> snd (fst e) \<notin> visited \<longrightarrow>
               fst (fst e) \<in> fst ` set ((state, path) # queue)"
    by (simp_all add: bfs_inv_def)
  from srt have lo: "\<forall>e\<in>set queue. length path \<le> length (snd e)" and srt': "sorted (map (length \<circ> snd) queue)"
    by simp_all
  have fc: "frontier_closed ts visited (fst ` set queue) state ts"
    unfolding frontier_closed_def using cl by auto
  show ?thesis
    unfolding scan_inv_def using hd ent srt' pw lo fc by simp
qed

lemma bfs_inv_next:
  assumes e: "scan_inv ts c target state path [] visited queue"
  shows "bfs_inv ts c target visited queue"
proof -
  from e have a: "c \<in> visited" "target \<notin> visited"
    and ent: "\<forall>e\<in>set queue. shortest ts c (snd e) (fst e) \<and> fst e \<in> visited \<and>
        length path \<le> length (snd e) \<and> length (snd e) \<le> length path + 1"
    and srt: "sorted (map (length \<circ> snd) queue)"
    and fc: "frontier_closed ts visited (fst ` set queue) state []"
    by (simp_all add: scan_inv_def)
  have pw: "\<forall>e\<in>set queue. \<forall>e'\<in>set queue. length (snd e) \<le> length (snd e') + 1"
  proof (intro ballI)
    fix e e' assume "e \<in> set queue" "e' \<in> set queue"
    with ent have "length (snd e) \<le> length path + 1" "length path \<le> length (snd e')" by auto
    then show "length (snd e) \<le> length (snd e') + 1" by simp
  qed
  have cl: "\<forall>e\<in>set ts. fst (fst e) \<in> visited \<and> snd (fst e) \<notin> visited \<longrightarrow> fst (fst e) \<in> fst ` set queue"
    using fc unfolding frontier_closed_def by simp
  show ?thesis unfolding bfs_inv_def using a ent srt pw cl by simp
qed

lemma bfs_loop_correct:
  assumes wf: "dict_wf ts"
  shows "bfs_inv ts c target visited queue \<Longrightarrow>
     (case bfs_loop ts target visited queue of
        Some p \<Rightarrow> shortest ts c p target
      | None \<Rightarrow> \<not> (\<exists>q. valid_path ts c q target))"
  using wf
proof (induction ts target visited queue rule: bfs_loop.induct)
  case (1 ts target visited)
  then have cv: "c \<in> visited" and tv: "target \<notin> visited"
    and cl: "\<forall>e\<in>set ts. fst (fst e) \<in> visited \<longrightarrow> snd (fst e) \<in> visited"
    by (simp_all add: bfs_inv_def)
  have "\<not> valid_path ts c q target" for q
  proof
    assume "valid_path ts c q target"
    from valid_path_crossing[OF this cv tv]
    obtain t where "from_state t \<in> visited" "to_state t \<notin> visited"
      "((from_state t, to_state t), t) \<in> set ts" by blast
    with cl show False by fastforce
  qed
  then show ?case by simp
next
  case (2 ts target visited state path queue)
  note inv = "2.prems"(1) and wf = "2.prems"(2)
  have sinv: "scan_inv ts c target state path ts visited queue"
    by (rule scan_inv_start[OF inv])
  show ?case
  proof (cases "scan_transitions ts state path target visited queue")
    case (Inl p)
    with scan_transitions_correct[OF wf sinv] show ?thesis by simp
  next
    case (Inr r)
    obtain visited' queue' where r: "r = (visited', queue')" by (cases r)
    from scan_transitions_correct[OF wf sinv] Inr r
    have e: "scan_inv ts c target state path [] visited' queue'" by simp
    have "bfs_inv ts c target visited' queue'" by (rule bfs_inv_next[OF e])
    from "2.IH"[OF Inr r[symmetric] this wf] Inr r show ?thesis by simp
  qed
qed

lemma find_path_correct:
  assumes wf: "dict_wf (transitions m)"
  shows "case find_path target m of
        Some p \<Rightarrow> shortest (transitions m) (current_state m) p target
      | None \<Rightarrow> \<not> (\<exists>q. valid_path (transitions m) (current_state m) q target)"
proof (cases "current_state m = target")
  case True
  then show ?thesis by (simp add: find_path_def shortest_def)
next
  case False
  have "bfs_inv (transitions m) (current_state m) target {current_state m} [(current_state m, [])]"
    using False by (simp add: bfs_inv_def shortest_def)
  from bfs_loop_correct[OF wf this] False show ?thesis by (simp add: find_path_def)
qed

lemma scan_transitions_nonempty:
  "scan_transitions rest state path target visited queue \<noteq> Inl []"
  by (induction rest state path target visited queue rule: scan_transitions.induct)
     (auto simp: Let_def)

lemma bfs_loop_nonempty: "bfs_loop ts target visited queue \<noteq> Some []"
  by (induction ts target visited queue rule: bfs_loop.induct)
     (auto simp: scan_transitions_nonempty split: sum.splits)

lemma find_path_nonempty:
  "current_state m \<noteq> target \<Longrightarrow> find_path target m \<noteq> Some []"
  by (simp add: find_path_def bfs_loop_nonempty del: bfs_loop.simps)

lemma find_path_two_hops:
  assumes d: "a \<noteq> b" "b \<noteq> c" "a \<noteq> c"
    and ts: "transitions m = [((a, b), t1), ((b, c), t2)] \<or>
             transitions m = [((b, c), t2), ((a, b), t1)]"
  shows "(current_state m = a \<longrightarrow> find_path c m = Some [t1, t2]) \<and>
         (current_state m = c \<longrightarrow> find_path a m = None)"
  using ts d by (auto simp: find_path_def)

text \<open>C1. \<open>find_path\<close> returns the empty list exactly when the current state is the target;
  when some chain of registered transitions leads from the current state to the target it
  returns such a chain with the fewest hops; when none does it returns \<open>None\<close>. With the two
  edges \<open>a \<rightarrow> b\<close> and \<open>b \<rightarrow> c\<close> only (three different states, either registration order) the
  path from \<open>a\<close> to \<open>c\<close> is exactly the two transitions in order, and from \<open>c\<close> to \<open>a\<close>
  there is none.\<close>

theorem find_path_bfs:
  assumes wf: "dict_wf (transitions m)"
  shows "(find_path target m = Some [] \<longleftrightarrow> current_state m = target) \<and>
         ((\<exists>q. valid_path (transitions m) (current_state m) q target) \<longrightarrow>
            (\<exists>p. find_path target m = Some p \<and>
                 valid_path (transitions m) (current_state m) p target \<and>
                 (\<forall>q. valid_path (transitions m) (current_state m) q target \<longrightarrow> length p \<le> length q))) \<and>
         (\<not> (\<exists>q. valid_path (transitions m) (current_state m) q target) \<longrightarrow>
            find_path target m = None) \<and>
         (a \<noteq> b \<and> b \<noteq> c \<and> a \<noteq> c \<and>
          (transitions m = [((a, b), t1), ((b, c), t2)] \<or>
           transitions m = [((b, c), t2), ((a, b), t1)]) \<longrightarrow>
            (current_state m = a \<longrightarrow> find_path c m = Some [t1, t2]) \<and>
            (current_state m = c \<longrightarrow> find_path a m = None))"
proof (intro conjI)
  show "find_path target m = Some [] \<longleftrightarrow> current_state m = target"
    using find_path_nonempty[of m target] by (auto simp: find_path_def)
next
  from find_path_correct[OF wf, of target]
  show "(\<exists>q. valid_path (transitions m) (current_state m) q target) \<longrightarrow>
            (\<exists>p. find_path target m = Some p \<and>
                 valid_path (transitions m) (current_state m) p target \<and>
                 (\<forall>q. valid_path (transitions m) (current_state m) q target \<longrightarrow> length p \<le> length q))"
    by (cases "find_path target m") (auto simp: shortest_def)
next
  from find_path_correct[OF wf, of target]
  show "\<not> (\<exists>q. valid_path (transitions m) (current_state m) q target) \<longrightarrow>
            find_path target m = None"
    by (cases "find_path target m") (auto simp: shortest_def)
next
  show "a \<noteq> b \<and> b \<noteq> c \<and> a \<noteq> c \<and>
          (transitions m = [((a, b), t1), ((b, c), t2)] \<or>
           transitions m = [((b, c), t2), ((a, b), t1)]) \<longrightarrow>
            (current_state m = a \<longrightarrow> find_path c m = Some [t1, t2]) \<and>
            (current_state m = c \<longrightarrow> find_path a m = None)"
    using find_path_two_hops[of a b c m t1 t2] by blast
qed


theorem find_path_bfs_witness:
  "dict_wf (transitions (abc_manager HOME_SCREEN)) \<and>
   valid_path (transitions (abc_manager HOME_SCREEN)) HOME_SCREEN
     [\<lparr>from_state = HOME_SCREEN, to_state = SHOP,
        action_sequence = [''click_template:home/shop_icon''], expected_duration = 2\<rparr>,
      \<lparr>from_state = SHOP, to_state = BATTLE, action_sequence = [], expected_duration = 1\<rparr>] BATTLE \<and>
   find_path BATTLE (abc_manager HOME_SCREEN) =
     Some [\<lparr>from_state = HOME_SCREEN, to_state = SHOP,
             action_sequence = [''click_template:home/shop_icon''], expected_duration = 2\<rparr>,
           \<lparr>from_state = SHOP, to_state = BATTLE, action_sequence = [], expected_duration = 1\<rparr>] \<and>
   \<not> (\<exists>q. valid_path (transitions (abc_manager BATTLE)) BATTLE q HOME_SCREEN) \<and>
   find_path HOME_SCREEN (abc_manager BATTLE) = None \<and>
   find_path HOME_SCREEN (abc_manager HOME_SCREEN) = Some []"
proof -
  let ?t1 = "\<lparr>from_state = HOME_SCREEN, to_state = SHOP,
        action_sequence = [''click_template:home/shop_icon''], expected_duration = 2\<rparr>"
  let ?t2 = "\<lparr>from_state = SHOP, to_state = BATTLE, action_sequence = [], expected_duration = 1\<rparr>"
  have wf: "dict_wf (transitions (abc_manager cur))" for cur
    by (simp add: abc_manager_def dict_wf_def)
  have vp: "valid_path (transitions (abc_manager HOME_SCREEN)) HOME_SCREEN [?t1, ?t2] BATTLE"
    by (simp add: abc_manager_def)
  have no: "\<not> valid_path (transitions (abc_manager BATTLE)) BATTLE q HOME_SCREEN" for q
    by (cases q) (auto simp: abc_manager_def)
  have cur: "current_state (abc_manager cur) = cur" for cur by (simp add: abc_manager_def)
  have ts: "transitions (abc_manager cur) = [((HOME_SCREEN, SHOP), ?t1), ((SHOP, BATTLE), ?t2)]" for cur
    by (simp add: abc_manager_def)
  have d: "HOME_SCREEN \<noteq> SHOP \<and> SHOP \<noteq> BATTLE \<and> HOME_SCREEN \<noteq> BATTLE" by simp
  have no': "\<not> (\<exists>q. valid_path (transitions (abc_manager BATTLE))
                 (current_state (abc_manager BATTLE)) q HOME_SCREEN)"
    using no by (simp add: cur)
  from find_path_bfs[where m="abc_manager HOME_SCREEN" and target=BATTLE and a=HOME_SCREEN and b=SHOP and c=BATTLE and ?t1.0="?t1" and ?t2.0="?t2", OF wf] d
    ts[of HOME_SCREEN] cur[of HOME_SCREEN]
  have 1: "find_path BATTLE (abc_manager HOME_SCREEN) = Some [?t1, ?t2]"
    by blast
  from find_path_bfs[where m="abc_manager BATTLE" and target=HOME_SCREEN and a=HOME_SCREEN and b=SHOP and c=BATTLE and ?t1.0="?t1" and ?t2.0="?t2", OF wf] no'
  have 2: "find_path HOME_SCREEN (abc_manager BATTLE) = None"
    by blast
  from find_path_bfs[where m="abc_manager HOME_SCREEN" and target=HOME_SCREEN and a=HOME_SCREEN and b=SHOP and c=BATTLE and ?t1.0="?t1" and ?t2.0="?t2", OF wf]
    cur[of HOME_SCREEN]
  have 3: "find_path HOME_SCREEN (abc_manager HOME_SCREEN) = Some []"
    by blast
  from wf vp 1 no 2 3 show ?thesis by blast
qed

lemma add_direct_eq: "add_direct cur ks R = R \<union> {t. (cur, t) \<in> set ks}"
  by (induction ks arbitrary: R) (auto split: if_splits)

text \<open>C8. \<open>get_reachable_states\<close> is the current state together with the targets of the
  edges that start at the current state. A state that can be reached, but only by chains of
  two or more hops, is accepted by \<open>can_transition_to\<close> and is not in
  \<open>get_reachable_states\<close>.\<close>

theorem reachable_states_one_hop:
  "get_reachable_states m =
     insert (current_state m) {t. (current_state m, t) \<in> fst ` set (transitions m)} \<and>
   (dict_wf (transitions m) \<and>
    (\<exists>q. valid_path (transitions m) (current_state m) q c) \<and>
    (\<forall>q. valid_path (transitions m) (current_state m) q c \<longrightarrow> 2 \<le> length q) \<longrightarrow>
      can_transition_to c m \<and> c \<notin> get_reachable_states m)"
proof (rule conjI, goal_cases)
  case 1
  show ?case by (auto simp: get_reachable_states_def add_direct_eq)
next
  case 2
  show ?case
  proof
    assume h: "dict_wf (transitions m) \<and>
      (\<exists>q. valid_path (transitions m) (current_state m) q c) \<and>
      (\<forall>q. valid_path (transitions m) (current_state m) q c \<longrightarrow> 2 \<le> length q)"
    then have wf: "dict_wf (transitions m)"
      and far: "\<And>q. valid_path (transitions m) (current_state m) q c \<Longrightarrow> 2 \<le> length q"
      by auto
    from find_path_correct[OF wf, of c] h have can: "can_transition_to c m"
      by (cases "find_path c m") (auto simp: can_transition_to_def)
    from far[of "[]"] have ne: "c \<noteq> current_state m" by auto
    have "(current_state m, c) \<notin> fst ` set (transitions m)"
    proof
      assume "(current_state m, c) \<in> fst ` set (transitions m)"
      then obtain t where t: "((current_state m, c), t) \<in> set (transitions m)" by auto
      from dict_wf_entry[OF wf t] t have "valid_path (transitions m) (current_state m) [t] c"
        by simp
      from far[OF this] show False by simp
    qed
    with ne can show "can_transition_to c m \<and> c \<notin> get_reachable_states m"
      by (simp add: get_reachable_states_def add_direct_eq)
  qed
qed

theorem reachable_states_one_hop_witness:
  "get_reachable_states init_manager = {UNKNOWN, HOME_SCREEN} \<and>
   can_transition_to SHOP init_manager \<and> SHOP \<notin> get_reachable_states init_manager \<and>
   get_reachable_states (abc_manager HOME_SCREEN) = {HOME_SCREEN, SHOP} \<and>
   can_transition_to BATTLE (abc_manager HOME_SCREEN) \<and>
   BATTLE \<notin> get_reachable_states (abc_manager HOME_SCREEN)"
proof -
  let ?t1 = "\<lparr>from_state = HOME_SCREEN, to_state = SHOP,
        action_sequence = [''click_template:home/shop_icon''], expected_duration = 2\<rparr>"
  let ?t2 = "\<lparr>from_state = SHOP, to_state = BATTLE, action_sequence = [], expected_duration = 1\<rparr>"
  let ?u = "\<lparr>from_state = UNKNOWN, to_state = HOME_SCREEN,
        action_sequence = [''click_template:common/return_home'', ''wait:1.0'',
         ''click_template:common/close_button'', ''wait:0.5'',
         ''click_template:common/confirm_button'', ''wait:0.5''], expected_duration = 3\<rparr>"
  have ts: "transitions init_manager =
     [((HOME_SCREEN, SHOP), ?t1),
      ((SHOP, HOME_SCREEN), \<lparr>from_state = SHOP, to_state = HOME_SCREEN,
         action_sequence = [''click_template:common/return_home''], expected_duration = 3/2\<rparr>),
      ((POPUP, UNKNOWN), \<lparr>from_state = POPUP, to_state = UNKNOWN,
         action_sequence = [''click_template:common/close_button'',
           ''click_template:common/confirm_button'', ''click_template:common/empty_area''],
         expected_duration = 1\<rparr>),
      ((ERROR, HOME_SCREEN), \<lparr>from_state = ERROR, to_state = HOME_SCREEN,
         action_sequence = [''click_template:common/confirm_button'', ''wait:2.0''],
         expected_duration = 3\<rparr>),
      ((UNKNOWN, HOME_SCREEN), ?u)]"
    and cur: "current_state init_manager = UNKNOWN"
    by (simp_all add: init_manager_def register_default_transitions_def register_transition_def)
  have wf: "dict_wf (transitions init_manager)" by (rule dict_wf_init)
  have ex: "\<exists>q. valid_path (transitions init_manager) (current_state init_manager) q SHOP"
    by (rule exI[of _ "[?u, ?t1]"]) (simp add: ts cur)
  have far: "\<forall>q. valid_path (transitions init_manager) (current_state init_manager) q SHOP
               \<longrightarrow> 2 \<le> length q"
  proof (intro allI impI)
    fix q assume v: "valid_path (transitions init_manager) (current_state init_manager) q SHOP"
    show "2 \<le> length q"
    proof (cases q)
      case Nil with v show ?thesis by (simp add: cur)
    next
      case (Cons t q')
      with v show ?thesis by (cases q') (auto simp: ts cur)
    qed
  qed
  have wf2: "dict_wf (transitions (abc_manager HOME_SCREEN))"
    by (simp add: abc_manager_def dict_wf_def)
  have ex2: "\<exists>q. valid_path (transitions (abc_manager HOME_SCREEN))
               (current_state (abc_manager HOME_SCREEN)) q BATTLE"
    by (rule exI[of _ "[?t1, ?t2]"]) (simp add: abc_manager_def)
  have far2: "\<forall>q. valid_path (transitions (abc_manager HOME_SCREEN))
                (current_state (abc_manager HOME_SCREEN)) q BATTLE \<longrightarrow> 2 \<le> length q"
  proof (intro allI impI)
    fix q assume v: "valid_path (transitions (abc_manager HOME_SCREEN))
                (current_state (abc_manager HOME_SCREEN)) q BATTLE"
    show "2 \<le> length q"
    proof (cases q)
      case Nil with v show ?thesis by (simp add: abc_manager_def)
    next
      case (Cons t q')
      with v show ?thesis by (cases q') (auto simp: abc_manager_def)
    qed
  qed
  from reachable_states_one_hop[where m=init_manager and c=SHOP] wf ex far
  have a: "get_reachable_states init_manager = {UNKNOWN, HOME_SCREEN}"
    "can_transition_to SHOP init_manager" "SHOP \<notin> get_reachable_states init_manager"
    by (auto simp: ts cur)
  from reachable_states_one_hop[where m="abc_manager HOME_SCREEN" and c=BATTLE] wf2 ex2 far2
  have b: "get_reachable_states (abc_manager HOME_SCREEN) = {HOME_SCREEN, SHOP}"
    "can_transition_to BATTLE (abc_manager HOME_SCREEN)"
    "BATTLE \<notin> get_reachable_states (abc_manager HOME_SCREEN)"
    by (auto simp: abc_manager_def)
  from a b show ?thesis by blast
qed

section \<open>Template matching\<close>

lemma first_max_mem: "first_max b cs \<in> set (b # cs)"
  by (induction cs arbitrary: b) (auto split: if_splits)

lemma first_min_mem: "first_min b cs \<in> set (b # cs)"
  by (induction cs arbitrary: b) (auto split: if_splits)

lemma first_max_all: "\<forall>c\<in>set (b # cs). snd c \<le> snd (first_max b cs)"
proof (induction cs arbitrary: b)
  case Nil then show ?case by simp
next
  case (Cons a cs)
  let ?b = "if snd b < snd a then a else b"
  from Cons.IH[of ?b] have ih: "\<forall>c\<in>set (?b # cs). snd c \<le> snd (first_max ?b cs)" .
  then have top: "snd ?b \<le> snd (first_max ?b cs)" by simp
  have "snd b \<le> snd ?b" "snd a \<le> snd ?b" by simp_all
  with top have "snd b \<le> snd (first_max ?b cs)" "snd a \<le> snd (first_max ?b cs)"
    by linarith+
  with ih show ?case by simp
qed

lemma first_min_all: "\<forall>c\<in>set (b # cs). snd (first_min b cs) \<le> snd c"
proof (induction cs arbitrary: b)
  case Nil then show ?case by simp
next
  case (Cons a cs)
  let ?b = "if snd a < snd b then a else b"
  from Cons.IH[of ?b] have ih: "\<forall>c\<in>set (?b # cs). snd (first_min ?b cs) \<le> snd c" .
  then have top: "snd (first_min ?b cs) \<le> snd ?b" by simp
  have "snd ?b \<le> snd b" "snd ?b \<le> snd a" by simp_all
  with top have "snd (first_min ?b cs) \<le> snd b" "snd (first_min ?b cs) \<le> snd a"
    by linarith+
  with ih show ?case by simp
qed

lemma minMaxLoc_Some:
  assumes "minMaxLoc result = Some (min_val, max_val, min_loc, max_loc)"
  shows "(min_loc, min_val) \<in> set (cells result) \<and> (max_loc, max_val) \<in> set (cells result) \<and>
         (\<forall>c\<in>set (cells result). min_val \<le> snd c \<and> snd c \<le> max_val)"
proof (cases "cells result")
  case Nil
  with assms show ?thesis by (simp add: minMaxLoc_def)
next
  case (Cons b cs)
  with assms have e: "min_val = snd (first_min b cs)" "max_val = snd (first_max b cs)"
    "min_loc = fst (first_min b cs)" "max_loc = fst (first_max b cs)"
    by (simp_all add: minMaxLoc_def)
  show ?thesis
    using first_min_mem[of b cs] first_max_mem[of b cs] first_min_all[of b cs] first_max_all[of b cs]
    unfolding e Cons by simp
qed

lemma minMaxLoc_None: "minMaxLoc result = None \<longleftrightarrow> cells result = []"
  by (simp add: minMaxLoc_def split: list.splits)


text \<open>C6. With \<open>multiple=False\<close>, \<open>find_template\<close> returns \<open>None\<close> without raising, whatever the
  threshold, when the name is not loaded or the template has more rows or more columns than
  the frame. Otherwise (OpenCV having produced a surface) it picks a cell whose confidence
  (the raw score, inverted for \<open>SQDIFF\<close>) is the largest of the surface, and returns the match
  at that cell when this confidence is not below the threshold, and \<open>None\<close> when it is.\<close>

theorem find_template_single:
  "((map_of (templates self) name = None \<or>
     (\<exists>t. map_of (templates self) name = Some t \<and>
          (shape0 img < shape0 t \<or> shape1 img < shape1 t))) \<longrightarrow>
      find_template mt self img name meth threshold False max_results = Inr (Single None)) \<and>
   (map_of (templates self) name = Some template \<and>
    shape0 template \<le> shape0 img \<and> shape1 template \<le> shape1 img \<and>
    mt img template meth = Some result \<and> cells result \<noteq> [] \<longrightarrow>
      (\<exists>loc raw.
         (loc, raw) \<in> set (cells result) \<and>
         (\<forall>c\<in>set (cells result). oriented meth (snd c) \<le> oriented meth raw) \<and>
         find_template mt self img name meth threshold False max_results =
           Inr (Single (if oriented meth raw < threshold then None
                        else Some \<lparr>top_left = loc,
                                   bottom_right = (fst loc + int (shape1 template),
                                                   snd loc + int (shape0 template)),
                                   confidence = oriented meth raw, template_name = name,
                                   match_method = meth\<rparr>))))"
proof (rule conjI, goal_cases)
  case 1
  show ?case by (auto simp: find_template_def)
next
  case 2
  show ?case
  proof
    assume h: "map_of (templates self) name = Some template \<and>
      shape0 template \<le> shape0 img \<and> shape1 template \<le> shape1 img \<and>
      mt img template meth = Some result \<and> cells result \<noteq> []"
    then obtain min_val max_val min_loc max_loc
      where mm: "minMaxLoc result = Some (min_val, max_val, min_loc, max_loc)"
      by (cases "minMaxLoc result") (auto simp: minMaxLoc_None)
    from minMaxLoc_Some[OF mm]
    have mn: "(min_loc, min_val) \<in> set (cells result)"
      and mx: "(max_loc, max_val) \<in> set (cells result)"
      and bd: "\<forall>c\<in>set (cells result). min_val \<le> snd c \<and> snd c \<le> max_val" by auto
    show "\<exists>loc raw.
         (loc, raw) \<in> set (cells result) \<and>
         (\<forall>c\<in>set (cells result). oriented meth (snd c) \<le> oriented meth raw) \<and>
         find_template mt self img name meth threshold False max_results =
           Inr (Single (if oriented meth raw < threshold then None
                        else Some \<lparr>top_left = loc,
                                   bottom_right = (fst loc + int (shape1 template),
                                                   snd loc + int (shape0 template)),
                                   confidence = oriented meth raw, template_name = name,
                                   match_method = meth\<rparr>))"
    proof (cases "meth = SQDIFF")
      case True
      show ?thesis
        apply (rule exI[of _ min_loc], rule exI[of _ min_val])
        using h mm mn bd True by (simp add: find_template_def oriented_def)
    next
      case False
      show ?thesis
        apply (rule exI[of _ max_loc], rule exI[of _ max_val])
        using h mm mx bd False by (simp add: find_template_def oriented_def)
    qed
  qed
qed

theorem find_template_single_witness:
  "find_template sample_surface icon_matcher sample_frame ''home/menu'' EXACT (4/5) False 5
     = Inr (Single None) \<and>
   find_template sample_surface icon_matcher \<lparr>shape0 = 1, shape1 = 9, pixels = []\<rparr>
       ''home/shop_icon'' EXACT 0 False 5 = Inr (Single None) \<and>
   find_template sample_surface icon_matcher sample_frame ''home/shop_icon'' EXACT (4/5) False 5
     = Inr (Single (Some \<lparr>top_left = (1, 0), bottom_right = (4, 2), confidence = 9/10,
                           template_name = ''home/shop_icon'', match_method = EXACT\<rparr>)) \<and>
   find_template sample_surface icon_matcher sample_frame ''home/shop_icon'' EXACT (19/20) False 5
     = Inr (Single None) \<and>
   find_template sample_surface icon_matcher sample_frame ''home/shop_icon'' SQDIFF (4/5) False 5
     = Inr (Single (Some \<lparr>top_left = (0, 0), bottom_right = (3, 2), confidence = 9/10,
                           template_name = ''home/shop_icon'', match_method = SQDIFF\<rparr>))"
proof -
  have t: "map_of (templates icon_matcher) ''home/shop_icon'' = Some icon"
    and n: "map_of (templates icon_matcher) ''home/menu'' = None"
    by (simp_all add: icon_matcher_def)
  have c: "cells [[1/10, 9/10], [3/10, 1/5]]
             = [((0, 0), 1/10), ((1, 0), 9/10), ((0, 1), 3/10), ((1, 1), 1/5)]"
    by (simp add: cells_def enumerate_eq_zip upt_rec)
  have 1: "find_template sample_surface icon_matcher sample_frame ''home/menu'' EXACT (4/5) False 5
     = Inr (Single None)"
    using find_template_single[where self=icon_matcher and name="''home/menu''"
        and img=sample_frame and mt=sample_surface and meth=EXACT and threshold="4/5"
        and max_results=5] n by blast
  have 2: "find_template sample_surface icon_matcher \<lparr>shape0 = 1, shape1 = 9, pixels = []\<rparr>
       ''home/shop_icon'' EXACT 0 False 5 = Inr (Single None)"
    using find_template_single[where self=icon_matcher and name="''home/shop_icon''"
        and img="\<lparr>shape0 = 1, shape1 = 9, pixels = []\<rparr>" and mt=sample_surface and meth=EXACT
        and threshold=0 and max_results=5] t
    by (simp add: icon_def)
  have pre: "map_of (templates icon_matcher) ''home/shop_icon'' = Some icon \<and>
      shape0 icon \<le> shape0 sample_frame \<and> shape1 icon \<le> shape1 sample_frame \<and>
      sample_surface sample_frame icon meth = Some [[1/10, 9/10], [3/10, 1/5]] \<and>
      cells [[1/10, 9/10], [3/10, 1/5]] \<noteq> []" for meth
    using t by (simp add: icon_def sample_frame_def sample_surface_def c)
  from find_template_single[where self=icon_matcher and name="''home/shop_icon''"
        and img=sample_frame and mt=sample_surface and meth=EXACT and threshold="4/5"
        and max_results=5 and template=icon and result="[[1/10, 9/10], [3/10, 1/5]]"] pre[of EXACT]
  obtain loc raw where "(loc, raw) \<in> set (cells [[1/10, 9/10], [3/10, 1/5]])"
    and "\<forall>c\<in>set (cells [[1/10, 9/10], [3/10, 1/5]]). oriented EXACT (snd c) \<le> oriented EXACT raw"
    and r: "find_template sample_surface icon_matcher sample_frame ''home/shop_icon'' EXACT (4/5) False 5 =
           Inr (Single (if oriented EXACT raw < 4/5 then None
                        else Some \<lparr>top_left = loc,
                                   bottom_right = (fst loc + int (shape1 icon), snd loc + int (shape0 icon)),
                                   confidence = oriented EXACT raw, template_name = ''home/shop_icon'',
                                   match_method = EXACT\<rparr>))"
    by blast
  then have "loc = (1, 0) \<and> raw = 9/10" by (auto simp: c oriented_def)
  with r have 3: "find_template sample_surface icon_matcher sample_frame ''home/shop_icon'' EXACT (4/5) False 5
     = Inr (Single (Some \<lparr>top_left = (1, 0), bottom_right = (4, 2), confidence = 9/10,
                           template_name = ''home/shop_icon'', match_method = EXACT\<rparr>))"
    by (simp add: oriented_def icon_def)
  from find_template_single[where self=icon_matcher and name="''home/shop_icon''"
        and img=sample_frame and mt=sample_surface and meth=EXACT and threshold="19/20"
        and max_results=5 and template=icon and result="[[1/10, 9/10], [3/10, 1/5]]"] pre[of EXACT]
  obtain loc raw where "(loc, raw) \<in> set (cells [[1/10, 9/10], [3/10, 1/5]])"
    and r: "find_template sample_surface icon_matcher sample_frame ''home/shop_icon'' EXACT (19/20) False 5 =
           Inr (Single (if oriented EXACT raw < 19/20 then None
                        else Some \<lparr>top_left = loc,
                                   bottom_right = (fst loc + int (shape1 icon), snd loc + int (shape0 icon)),
                                   confidence = oriented EXACT raw, template_name = ''home/shop_icon'',
                                   match_method = EXACT\<rparr>))"
    by blast
  then have "oriented EXACT raw < 19/20" by (auto simp: c oriented_def)
  with r have 4: "find_template sample_surface icon_matcher sample_frame ''home/shop_icon'' EXACT (19/20) False 5
     = Inr (Single None)" by simp
  from find_template_single[where self=icon_matcher and name="''home/shop_icon''"
        and img=sample_frame and mt=sample_surface and meth=SQDIFF and threshold="4/5"
        and max_results=5 and template=icon and result="[[1/10, 9/10], [3/10, 1/5]]"] pre[of SQDIFF]
  obtain loc raw where "(loc, raw) \<in> set (cells [[1/10, 9/10], [3/10, 1/5]])"
    and "\<forall>c\<in>set (cells [[1/10, 9/10], [3/10, 1/5]]). oriented SQDIFF (snd c) \<le> oriented SQDIFF raw"
    and r: "find_template sample_surface icon_matcher sample_frame ''home/shop_icon'' SQDIFF (4/5) False 5 =
           Inr (Single (if oriented SQDIFF raw < 4/5 then None
                        else Some \<lparr>top_left = loc,
                                   bottom_right = (fst loc + int (shape1 icon), snd loc + int (shape0 icon)),
                                   confidence = oriented SQDIFF raw, template_name = ''home/shop_icon'',
                                   match_method = SQDIFF\<rparr>))"
    by blast
  then have "loc = (0, 0) \<and> raw = 1/10" by (auto simp: c oriented_def)
  with r have 5: "find_template sample_surface icon_matcher sample_frame ''home/shop_icon'' SQDIFF (4/5) False 5
     = Inr (Single (Some \<lparr>top_left = (0, 0), bottom_right = (3, 2), confidence = 9/10,
                           template_name = ''home/shop_icon'', match_method = SQDIFF\<rparr>))"
    by (simp add: oriented_def icon_def)
  from 1 2 3 4 5 show ?thesis by blast
qed

lemma collect_matches_bounds:
  "collect_matches template name meth threshold max_results invert_score matches result = Inr ms \<Longrightarrow>
   \<forall>m\<in>set matches. threshold \<le> confidence m \<Longrightarrow>
   (\<forall>m\<in>set ms. threshold \<le> confidence m) \<and>
   int (length ms) \<le> max (int (length matches)) max_results"
proof (induction template name meth threshold max_results invert_score matches result
       rule: collect_matches.induct)
  case (1 template name meth threshold max_results invert_score matches result)
  show ?case
  proof (cases "int (length matches) < max_results")
    case False
    with "1.prems" show ?thesis by (subst (asm) collect_matches.simps) auto
  next
    case True
    from "1.prems"(1) True obtain min_val max_val min_loc max_loc
      where mm: "minMaxLoc result = Some (min_val, max_val, min_loc, max_loc)"
      by (subst (asm) collect_matches.simps) (auto split: option.splits)
    let ?score = "if invert_score then 1 - min_val else max_val"
    let ?loc = "if invert_score then min_loc else max_loc"
    show ?thesis
    proof (cases "?score < threshold")
      case low: True
      from "1.prems"(1) True mm low have "ms = matches"
        by (subst (asm) collect_matches.simps) (simp add: Let_def)
      with "1.prems"(2) show ?thesis by simp
    next
      case high: False
      let ?h = "int (shape0 template)" and ?w = "int (shape1 template)"
      let ?m = "\<lparr>top_left = ?loc, bottom_right = (fst ?loc + ?w, snd ?loc + ?h),
                  confidence = ?score, template_name = name, match_method = meth\<rparr>"
      let ?r = "rectangle result (max 0 (fst ?loc - 5), max 0 (snd ?loc - 5))
                  (min (result_shape1 result) (fst ?loc + ?w + 5),
                   min (result_shape0 result) (snd ?loc + ?h + 5)) 0"
      from "1.prems"(1) True mm high
      have run: "collect_matches template name meth threshold max_results invert_score
                   (matches @ [?m]) ?r = Inr ms"
        by (subst (asm) collect_matches.simps) (simp add: Let_def)
      have ok: "\<forall>m\<in>set (matches @ [?m]). threshold \<le> confidence m"
        using "1.prems"(2) high by auto
      note ih = "1.IH"[OF True mm]
      note ih2 = ih[OF refl refl refl]
      note ih3 = ih2[OF refl refl high]
      note ih4 = ih3[OF refl refl refl refl]
      from ih4[OF run ok] True
      show ?thesis by auto
    qed
  qed
qed

lemma find_many_bounds:
  assumes "find_template mt self img name meth threshold True max_results = Inr (Many ms)"
  shows "(\<forall>m\<in>set ms. threshold \<le> confidence m) \<and> int (length ms) \<le> max 0 max_results"
proof (cases "map_of (templates self) name")
  case None
  with assms show ?thesis by (simp add: find_template_def)
next
  case (Some template)
  show ?thesis
  proof (cases "shape0 template > shape0 img \<or> shape1 template > shape1 img")
    case True
    with assms Some show ?thesis by (auto simp: find_template_def)
  next
    case False
    with assms Some obtain result where
      "collect_matches template name meth threshold max_results (meth = SQDIFF) [] result = Inr ms"
      by (auto simp: find_template_def Let_def simp del: collect_matches.simps
          split: option.splits sum.splits)
    from collect_matches_bounds[OF this] show ?thesis by simp
  qed
qed

text \<open>C4. \<open>find_template\<close> with \<open>multiple=True\<close> is meant to return matches that do not overlap.
  With the method \<open>SQDIFF\<close> the best raw score is the smallest, and the suppressed region is
  filled with 0, the best possible raw score: on a frame that is exactly the template, with
  threshold 0.8 and \<open>max_results = 3\<close>, the same rectangle is returned three times.\<close>

theorem find_many_repeats_match:
  "find_template perfect_match icon_matcher icon ''home/shop_icon'' SQDIFF (4/5) True 3 =
     Inr (Many [\<lparr>top_left = (0, 0), bottom_right = (3, 2), confidence = 1,
                   template_name = ''home/shop_icon'', match_method = SQDIFF\<rparr>,
                \<lparr>top_left = (0, 0), bottom_right = (3, 2), confidence = 1,
                   template_name = ''home/shop_icon'', match_method = SQDIFF\<rparr>,
                \<lparr>top_left = (0, 0), bottom_right = (3, 2), confidence = 1,
                   template_name = ''home/shop_icon'', match_method = SQDIFF\<rparr>]) \<and>
   overlaps \<lparr>top_left = (0, 0), bottom_right = (3, 2), confidence = 1,
              template_name = ''home/shop_icon'', match_method = SQDIFF\<rparr>
            \<lparr>top_left = (0, 0), bottom_right = (3, 2), confidence = 1,
              template_name = ''home/shop_icon'', match_method = SQDIFF\<rparr>"
proof -
  have c: "cells [[0]] = [((0, 0), 0)]" by (simp add: cells_def enumerate_eq_zip)
  have mm: "minMaxLoc [[0]] = Some (0, 0, (0, 0), (0, 0))" by (simp add: minMaxLoc_def c)
  have r: "rectangle [[0]] (0, 0) (1, 1) 0 = [[0]]" by (simp add: rectangle_def enumerate_eq_zip)
  have sh: "result_shape0 [[0]] = 1" "result_shape1 [[0]] = 1"
    by (simp_all add: result_shape0_def result_shape1_def)
  have "collect_matches icon ''home/shop_icon'' SQDIFF (4/5) 3 True [] [[0]] =
     Inr [\<lparr>top_left = (0, 0), bottom_right = (3, 2), confidence = 1,
                   template_name = ''home/shop_icon'', match_method = SQDIFF\<rparr>,
                \<lparr>top_left = (0, 0), bottom_right = (3, 2), confidence = 1,
                   template_name = ''home/shop_icon'', match_method = SQDIFF\<rparr>,
                \<lparr>top_left = (0, 0), bottom_right = (3, 2), confidence = 1,
                   template_name = ''home/shop_icon'', match_method = SQDIFF\<rparr>]"
    by (simp add: mm r sh icon_def Let_def)
  then show ?thesis
    by (simp add: find_template_def icon_matcher_def perfect_match_def overlaps_def
        del: collect_matches.simps)
qed

section \<open>Navigation\<close>

lemma detect_home:
  "detect_state perfect_match home_detector sample_frame = Inr HOME_SCREEN"
  by (simp add: detect_state_def home_detector_def find_template_def icon_def sample_frame_def
      perfect_match_def minMaxLoc_def cells_def enumerate_eq_zip)

text \<open>C3. The action descriptors registered with the transitions are \<open>click_template:X\<close> and
  \<open>wait:N\<close>. \<open>_execute_action\<close> strips the six characters \<open>click_\<close> and looks for the template
  named \<open>template:X\<close>, and it has no case for \<open>wait:\<close>: on \<open>wait:2.0\<close> it logs an unknown
  action and does not sleep; on \<open>click_template:home/shop_icon\<close> it reports the template as
  not found and does not click, although the template \<open>home/shop_icon\<close> is loaded and is
  found on that very frame.\<close>

theorem execute_action_misreads_descriptors:
  "execute_action perfect_match ''wait:2.0'' stuck_automation =
     (False, stuck_automation\<lparr>captures := 1, events := [UnknownActionWarning ''wait:2.0'']\<rparr>) \<and>
   execute_action perfect_match ''click_template:home/shop_icon'' stuck_automation =
     (False, stuck_automation\<lparr>captures := 1,
        events := [TemplateNotFoundWarning ''click_template:home/shop_icon'']\<rparr>) \<and>
   find_template perfect_match (template_matcher (state_detector stuck_automation))
       sample_frame ''home/shop_icon'' EXACT (7/10) False 5 =
     Inr (Single (Some \<lparr>top_left = (0, 0), bottom_right = (3, 2), confidence = 1,
                         template_name = ''home/shop_icon'', match_method = EXACT\<rparr>))"
  by (simp add: execute_action_def capture_def emit_def stuck_automation_def home_detector_def
      find_template_def icon_def sample_frame_def perfect_match_def minMaxLoc_def cells_def
      enumerate_eq_zip)

lemma follow_path_append:
  "follow_path mt pre a = Inr (True, a1) \<Longrightarrow> follow_path mt (pre @ rest) a = follow_path mt rest a1"
proof (induction pre arbitrary: a)
  case Nil then show ?case by simp
next
  case (Cons t pre)
  then show ?case by (auto split: sum.splits if_splits)
qed

lemma automation_update_state_current:
  "automation_update_state mt a = Inr (d, a') \<Longrightarrow> current_state (state_manager a') = d"
  by (auto simp: automation_update_state_def capture_def update_state_def
      split: sum.splits if_splits)

text \<open>C2. When the hops before a transition of the path have been verified and the state
  detected after that transition's actions and sleep is not its \<open>to_state\<close>, \<open>navigate_to\<close>
  returns false with the automation as it was right after that detection (plus the logged
  warning): nothing of the rest of the path is executed, and the manager's current state is
  the state just detected.\<close>

theorem navigate_to_aborts:
  assumes first: "automation_update_state mt a = Inr (s0, a0)"
    and away: "s0 \<noteq> target"
    and path: "find_path target (state_manager a0) = Some (pre @ t # rest)"
    and pre: "follow_path mt pre a0 = Inr (True, a1)"
    and hop: "automation_update_state mt
               (sleep (expected_duration t) (execute_actions mt (action_sequence t) a1))
               = Inr (d, a3)"
    and miss: "d \<noteq> to_state t"
  shows "navigate_to mt target a =
           Inr (False, emit (UnexpectedStateWarning (to_state t) d) a3) \<and>
         current_state (state_manager
           (emit (UnexpectedStateWarning (to_state t) d) a3)) = d \<and>
         navigate_to mt target a = follow_path mt (pre @ [t]) a0"
proof -
  have stop: "follow_path mt (t # more) a1 =
      Inr (False, emit (UnexpectedStateWarning (to_state t) d) a3)" for more
    using hop miss by simp
  have run: "follow_path mt (pre @ t # more) a0 =
      Inr (False, emit (UnexpectedStateWarning (to_state t) d) a3)" for more
    using follow_path_append[OF pre, of "t # more"] stop by simp
  have nav: "navigate_to mt target a = follow_path mt (pre @ t # rest) a0"
    using first away path by (cases "pre @ t # rest") (simp_all add: navigate_to_def)
  from automation_update_state_current[OF hop]
  have cur: "current_state (state_manager (emit (UnexpectedStateWarning (to_state t) d) a3)) = d"
    by (simp add: emit_def)
  from nav run[of rest] run[of "[]"] cur show ?thesis by simp
qed


theorem navigate_to_aborts_witness:
  "\<exists>final. navigate_to perfect_match BATTLE stuck_automation = Inr (False, final) \<and>
      current_state (state_manager final) = HOME_SCREEN \<and>
      events final = [TemplateNotFoundWarning ''click_template:home/shop_icon'', Sleep 2,
                      UnexpectedStateWarning SHOP HOME_SCREEN] \<and>
      captures final = 3"
proof -
  let ?t1 = "\<lparr>from_state = HOME_SCREEN, to_state = SHOP,
        action_sequence = [''click_template:home/shop_icon''], expected_duration = 2\<rparr>"
  let ?t2 = "\<lparr>from_state = SHOP, to_state = BATTLE, action_sequence = [], expected_duration = 1\<rparr>"
  let ?m0 = "(abc_manager UNKNOWN)\<lparr>previous_state := Some UNKNOWN, current_state := HOME_SCREEN,
               state_history := [(HOME_SCREEN, 0)], stable_state_time := 0\<rparr>"
  let ?a0 = "stuck_automation\<lparr>captures := 1, state_manager := ?m0\<rparr>"
  let ?a2 = "?a0\<lparr>captures := 2,
               events := [TemplateNotFoundWarning ''click_template:home/shop_icon'', Sleep 2],
               clock := 2\<rparr>"
  let ?a3 = "?a2\<lparr>captures := 3\<rparr>"
  have det: "detect_state perfect_match (state_detector stuck_automation) sample_frame = Inr HOME_SCREEN"
    using detect_home by (simp add: stuck_automation_def)
  have first: "automation_update_state perfect_match stuck_automation = Inr (HOME_SCREEN, ?a0)"
    using det
    by (simp add: automation_update_state_def capture_def update_state_def stuck_automation_def
        abc_manager_def)
  have away: "HOME_SCREEN \<noteq> BATTLE" by simp
  have path: "find_path BATTLE (state_manager ?a0) = Some ([] @ ?t1 # [?t2])"
    by (simp add: find_path_def abc_manager_def stuck_automation_def)
  have pre: "follow_path perfect_match [] ?a0 = Inr (True, ?a0)" by simp
  have act: "sleep (expected_duration ?t1) (execute_actions perfect_match (action_sequence ?t1) ?a0) = ?a2"
    by (simp add: execute_action_def capture_def emit_def sleep_def stuck_automation_def
        home_detector_def find_template_def)
  have hop: "automation_update_state perfect_match
               (sleep (expected_duration ?t1) (execute_actions perfect_match (action_sequence ?t1) ?a0))
               = Inr (HOME_SCREEN, ?a3)"
    unfolding act using det
    by (simp add: automation_update_state_def capture_def update_state_def stuck_automation_def)
  have miss: "HOME_SCREEN \<noteq> to_state ?t1" by simp
  from navigate_to_aborts[OF first away path pre hop miss]
  have "navigate_to perfect_match BATTLE stuck_automation =
          Inr (False, emit (UnexpectedStateWarning (to_state ?t1) HOME_SCREEN) ?a3)"
    and "current_state (state_manager (emit (UnexpectedStateWarning (to_state ?t1) HOME_SCREEN) ?a3))
          = HOME_SCREEN" by blast+
  then show ?thesis by (simp add: emit_def)
qed

end
